theory Spec2Isabelle
  imports Complex_Main
begin

section \<open>Air Guitar Pro: the matching engine of the PC player\<close>

text \<open>
  The engine lives in the component \<^verbatim>\<open>PCPlayer\<close>: the WebSocket handler
  \<^verbatim>\<open>ws.onmessage\<close>, \<^verbatim>\<open>spawnNote\<close>, the per-frame function
  \<^verbatim>\<open>gameLoop\<close> and \<^verbatim>\<open>handleExit\<close>; \<^verbatim>\<open>App\<close> supplies the
  \<^verbatim>\<open>onExit\<close> callback and \<^verbatim>\<open>BackendService\<close> the score submission.
  JavaScript numbers are modelled as \<^typ>\<open>real\<close> (coordinates, message contents) and
  \<^typ>\<open>int\<close> (counters, milliseconds); rounding and overflow of doubles are not
  modelled. The mutable
  \<^verbatim>\<open>useRef\<close> cells become the fields of one record that every function takes
  and returns. Drawing, particles and audio synthesis are left out: they never write
  these refs.
\<close>

subsection \<open>Data\<close>

text \<open>
  \<^verbatim>\<open>interface Note { id; x; chordName; hit; missed }\<close>, with \<^verbatim>\<open>id\<close> and
  \<^verbatim>\<open>x\<close> written \<open>note_id\<close> and \<open>note_x\<close>.
\<close>

record Note =
  note_id :: nat
  note_x :: real
  chordName :: string
  hit :: bool
  missed :: bool

text \<open>The texts that \<^verbatim>\<open>setLastRating\<close> is called with.\<close>

datatype rating = PERFECT | GREAT | MISS

datatype strumDir = up | down

text \<open>
  What \<^verbatim>\<open>JSON.parse\<close> can deliver, and \<^verbatim>\<open>undefined\<close> for what is missing. The
  pairs of an object are in the order of the text; of two pairs with the same key the later
  one counts.
\<close>

datatype jsval =
    Undefined
  | JNull
  | JBool bool
  | JNum real
  | JStr string
  | JArr "jsval list"
  | JObj "(string \<times> jsval) list"

text \<open>
  The array in \<^verbatim>\<open>fretStatesRef\<close>: its elements, and the assignments to properties
  that are not array indices, in order.
\<close>

record fretArray =
  elems :: "jsval list"
  other_props :: "(real \<times> jsval) list"

definition six_nulls :: fretArray where
  "six_nulls = \<lparr>elems = [JNull, JNull, JNull, JNull, JNull, JNull], other_props = []\<rparr>"

text \<open>The refs of \<^verbatim>\<open>PCPlayer\<close>, with their initial values below.\<close>

record game =
  scoreRef :: int
  comboRef :: int
  fretStatesRef :: fretArray
  currentChordRef :: jsval
  notesRef :: "Note list"
  nextNoteId :: nat
  lastNoteSpawnTime :: int
  isAudioStartedRef :: bool
  perfectCountRef :: int
  greatCountRef :: int
  missCountRef :: int
  gameStartTimeRef :: "int option"
  lastYRef :: "real option"
  isStrummingRef :: bool
  lastStrumTimeRef :: int

definition initial_game :: game where
  "initial_game =
     \<lparr>scoreRef = 0, comboRef = 0,
      fretStatesRef = six_nulls,
      currentChordRef = JStr ''C'', notesRef = [], nextNoteId = 0, lastNoteSpawnTime = 0,
      isAudioStartedRef = False, perfectCountRef = 0, greatCountRef = 0, missCountRef = 0,
      gameStartTimeRef = None, lastYRef = None, isStrummingRef = False,
      lastStrumTimeRef = 0\<rparr>"

subsection \<open>Constants\<close>

definition NOTE_SPEED :: real where
  "NOTE_SPEED = 16"

definition HIT_WINDOW :: real where
  "HIT_WINDOW = 120"

definition STRUM_VELOCITY_THRESHOLD :: real where
  "STRUM_VELOCITY_THRESHOLD = 18"

definition HIT_ZONE_X :: "real \<Rightarrow> real" where
  "HIT_ZONE_X CANVAS_W = CANVAS_W - 250"

subsection \<open>The note loop of \<^verbatim>\<open>gameLoop\<close>\<close>

text \<open>
  The body of \<^verbatim>\<open>for (let i = notes.length - 1; i >= 0; i--)\<close> for one note:
  it returns the note as mutated, the refs as mutated, and the ratings shown for the note
  in this iteration, in call order.
\<close>

definition judge_note :: "bool \<Rightarrow> real \<Rightarrow> Note \<Rightarrow> game \<Rightarrow> Note \<times> game \<times> rating list" where
  "judge_note didStrum HZX n g =
     (if \<not> hit n \<and> \<not> missed n then
        let n1 = n\<lparr>note_x := note_x n + NOTE_SPEED\<rparr>;
            dist = \<bar>note_x n1 - HZX\<bar>;
            isPerfect = dist < HIT_WINDOW / 3.5;
            (n2, g2, r2) =
              (if didStrum then
                 if dist < HIT_WINDOW then
                   (n1\<lparr>hit := True\<rparr>,
                    (if isPerfect
                     then g\<lparr>scoreRef := scoreRef g + 1000, comboRef := comboRef g + 1,
                            perfectCountRef := perfectCountRef g + 1\<rparr>
                     else g\<lparr>scoreRef := scoreRef g + 500, comboRef := comboRef g + 1,
                            greatCountRef := greatCountRef g + 1\<rparr>),
                    [if isPerfect then PERFECT else GREAT])
                 else (n1, g, [])
               else (n1, g, []))
        in if note_x n2 > HZX + HIT_WINDOW
           then (n2\<lparr>missed := True\<rparr>,
                 g2\<lparr>comboRef := 0, missCountRef := missCountRef g2 + 1\<rparr>,
                 r2 @ [MISS])
           else (n2, g2, r2)
      else (n, g, []))"

text \<open>
  The loop runs from the last index down to 0, so the tail of the list is judged before
  its head; the list keeps its order. The log pairs every rating with the id of its note.
\<close>

fun notes_loop :: "bool \<Rightarrow> real \<Rightarrow> Note list \<Rightarrow> game \<Rightarrow> Note list \<times> game \<times> (nat \<times> rating) list" where
  "notes_loop didStrum HZX [] g = ([], g, [])"
| "notes_loop didStrum HZX (n # ns) g =
     (case notes_loop didStrum HZX ns g of
        (ns', g1, log1) \<Rightarrow>
          (case judge_note didStrum HZX n g1 of
             (n', g2, rs) \<Rightarrow> (n' # ns', g2, log1 @ map (\<lambda>r. (note_id n, r)) rs)))"

subsection \<open>Frames\<close>

text \<open>
  What one call of \<^verbatim>\<open>gameLoop\<close> reads from outside: the clock (read once in
  \<^verbatim>\<open>spawnNote\<close> and once after the hand estimation), the index
  \<^verbatim>\<open>Math.floor(Math.random() * chords.length)\<close> (one of 0 to 8), the hands returned by
  \<^verbatim>\<open>model.estimateHands\<close>, the size of the video and the window size in
  \<^verbatim>\<open>dimsRef\<close>.
\<close>

record prediction =
  landmarks :: "real list list"

record frame =
  spawnNow :: int
  randomIndex :: nat
  predictions :: "prediction list"
  now :: int
  videoWidth :: real
  videoHeight :: real
  dims_w :: real
  dims_h :: real

text \<open>
  The estimator returns 21 landmarks of three coordinates for every hand, and
  \<^verbatim>\<open>gameLoop\<close> runs once the metadata of the video are loaded, so the video has a
  positive size. On anything else JavaScript would raise a TypeError or compute with
  Infinity or NaN, where the model reads an unspecified element or takes \<open>x / 0\<close> to
  be 0.
\<close>

definition wf_prediction :: "prediction \<Rightarrow> bool" where
  "wf_prediction p \<longleftrightarrow> length (landmarks p) = 21 \<and> list_all (\<lambda>l. length l = 3) (landmarks p)"

definition wf_frame :: "frame \<Rightarrow> bool" where
  "wf_frame f \<longleftrightarrow>
     videoWidth f > 0 \<and> videoHeight f > 0 \<and> list_all wf_prediction (predictions f)"

subsection \<open>\<^verbatim>\<open>spawnNote\<close>\<close>

definition chords :: "string list" where
  "chords = [''C'', ''G'', ''D'', ''Em'', ''Am'', ''F'', ''Dm'', ''A'', ''E'']"

definition spawnNote :: "int \<Rightarrow> nat \<Rightarrow> game \<Rightarrow> game" where
  "spawnNote t i g =
     (if t - lastNoteSpawnTime g > 1100 then
        g\<lparr>notesRef := notesRef g @
               [\<lparr>note_id = nextNoteId g, note_x = - 100, chordName = chords ! i,
                 hit = False, missed = False\<rparr>],
          nextNoteId := nextNoteId g + 1,
          lastNoteSpawnTime := t\<rparr>
      else g)"

subsection \<open>Hand selection and strum detection in \<^verbatim>\<open>gameLoop\<close>\<close>

definition hScale :: "frame \<Rightarrow> real" where
  "hScale f = dims_w f / videoWidth f"

definition vScale :: "frame \<Rightarrow> real" where
  "vScale f = dims_h f / videoHeight f"

definition validHands :: "frame \<Rightarrow> prediction list" where
  "validHands f =
     filter (\<lambda>p. landmarks p ! 0 ! 1 * vScale f > dims_h f * 0.45) (predictions f)"

text \<open>
  \<^verbatim>\<open>validHands.reduce((prev, curr) => ... ? prev : curr)\<close> has no initial value:
  it starts from the first element and folds the rest from the left. It is only called on
  a non-empty array.
\<close>

definition select_hand :: "prediction list \<Rightarrow> prediction" where
  "select_hand vs =
     foldl (\<lambda>prev curr. if landmarks prev ! 0 ! 0 < landmarks curr ! 0 ! 0 then prev else curr)
       (hd vs) (tl vs)"

definition avgTipY :: "frame \<Rightarrow> prediction \<Rightarrow> real" where
  "avgTipY f h =
     (landmarks h ! 8 ! 1 + landmarks h ! 12 ! 1 + landmarks h ! 16 ! 1) / 3 * vScale f"

definition displayHandX :: "frame \<Rightarrow> prediction \<Rightarrow> real" where
  "displayHandX f h = dims_w f - landmarks h ! 0 ! 0 * hScale f"

text \<open>\<^verbatim>\<open>STRUM_ZONE\<close> and \<^verbatim>\<open>STRUM_MID_Y\<close>, computed from the window size.\<close>

definition STRUM_ZONE_x :: "frame \<Rightarrow> real" where
  "STRUM_ZONE_x f = dims_w f - 650"

definition STRUM_ZONE_y :: "frame \<Rightarrow> real" where
  "STRUM_ZONE_y f = dims_h f * 0.65"

definition STRUM_ZONE_w :: real where
  "STRUM_ZONE_w = 600"

definition STRUM_ZONE_h :: "frame \<Rightarrow> real" where
  "STRUM_ZONE_h f = dims_h f * 0.3"

definition STRUM_MID_Y :: "frame \<Rightarrow> real" where
  "STRUM_MID_Y f = STRUM_ZONE_y f + STRUM_ZONE_h f / 2"

definition in_strum_zone :: "frame \<Rightarrow> real \<Rightarrow> real \<Rightarrow> bool" where
  "in_strum_zone f hx ty \<longleftrightarrow>
     hx > STRUM_ZONE_x f \<and> hx < STRUM_ZONE_x f + STRUM_ZONE_w \<and>
     ty > STRUM_ZONE_y f \<and> ty < STRUM_ZONE_y f + STRUM_ZONE_h f"

definition crossed :: "frame \<Rightarrow> real \<Rightarrow> real \<Rightarrow> bool" where
  "crossed f lastY ty \<longleftrightarrow>
     (lastY < STRUM_MID_Y f \<and> ty \<ge> STRUM_MID_Y f) \<or>
     (lastY > STRUM_MID_Y f \<and> ty \<le> STRUM_MID_Y f)"

text \<open>
  The block from \<^verbatim>\<open>let didStrum = false\<close> to the end of
  \<^verbatim>\<open>if (predictions.length > 0)\<close>: it returns \<^verbatim>\<open>didStrum\<close>,
  \<^verbatim>\<open>strumDir\<close> and the refs.
\<close>

definition detect_strum :: "frame \<Rightarrow> game \<Rightarrow> bool \<times> strumDir \<times> game" where
  "detect_strum f g =
     (if length (predictions f) > 0 then
        if length (validHands f) > 0 then
          let h = select_hand (validHands f);
              ty = avgTipY f h;
              hx = displayHandX f h
          in if in_strum_zone f hx ty then
               (case lastYRef g of
                  None \<Rightarrow> (False, down, g\<lparr>lastYRef := Some ty\<rparr>)
                | Some lastY \<Rightarrow>
                    let vel = ty - lastY;
                        speed = \<bar>vel\<bar>
                    in if crossed f lastY ty \<and> speed > STRUM_VELOCITY_THRESHOLD \<and>
                          now f - lastStrumTimeRef g > 150
                       then (True, if vel > 0 then down else up,
                             g\<lparr>lastStrumTimeRef := now f, isStrummingRef := True,
                               lastYRef := Some ty\<rparr>)
                       else (False, down, g\<lparr>lastYRef := Some ty\<rparr>))
             else (False, down, g\<lparr>lastYRef := None, isStrummingRef := False\<rparr>)
        else (False, down, g)
      else (False, down, g))"

subsection \<open>\<^verbatim>\<open>gameLoop\<close>\<close>

text \<open>
  One frame: spawn, detect, judge every note, retire. Besides the refs it returns what the
  frame did: whether a strum fired, its direction, and the ratings shown with their notes.
\<close>

definition gameLoop :: "frame \<Rightarrow> game \<Rightarrow> game \<times> bool \<times> strumDir \<times> (nat \<times> rating) list" where
  "gameLoop f g =
     (let g0 = (if isAudioStartedRef g then spawnNote (spawnNow f) (randomIndex f) g else g) in
      case detect_strum f g0 of
        (didStrum, dir, g1) \<Rightarrow>
          (case notes_loop didStrum (HIT_ZONE_X (dims_w f)) (notesRef g1) g1 of
             (ns, g2, shown) \<Rightarrow>
               (g2\<lparr>notesRef := filter (\<lambda>n. note_x n < dims_w f + 200 \<and> \<not> hit n) ns\<rparr>,
                didStrum, dir, shown)))"

text \<open>\<^verbatim>\<open>handleStart\<close>, with the clock as argument.\<close>

definition handleStart :: "int \<Rightarrow> game \<Rightarrow> game" where
  "handleStart t g = g\<lparr>isAudioStartedRef := True, gameStartTimeRef := Some t\<rparr>"

text \<open>A session: the frames in order, with the log of all of them.\<close>

fun run :: "frame list \<Rightarrow> game \<Rightarrow> game \<times> (nat \<times> rating) list" where
  "run [] g = (g, [])"
| "run (f # fs) g =
     (case gameLoop f g of
        (g1, _, _, log1) \<Rightarrow> (case run fs g1 of (g2, log2) \<Rightarrow> (g2, log1 @ log2)))"

text \<open>The times at which the frames of a session fired a strum, in order.\<close>

fun strum_times :: "frame list \<Rightarrow> game \<Rightarrow> int list" where
  "strum_times [] g = []"
| "strum_times (f # fs) g =
     (case gameLoop f g of
        (g1, didStrum, _, _) \<Rightarrow> (if didStrum then [now f] else []) @ strum_times fs g1)"

subsection \<open>\<^verbatim>\<open>ws.onmessage\<close>\<close>

text \<open>
  The parsed payload by its \<^verbatim>\<open>type\<close>. Of a chord change the handler reads the
  fields \<^verbatim>\<open>chord\<close> and \<^verbatim>\<open>fingering\<close>, of a fret update the field
  \<^verbatim>\<open>payload\<close>; each is any value, \<^verbatim>\<open>undefined\<close> when missing. A text that
  does not parse, or parses to \<^verbatim>\<open>null\<close>, raises in the handler before it reads a
  type and is dropped like an unknown type.
\<close>

datatype payload =
    chord_change jsval jsval
  | strings_pressed
  | strings_released
  | FRET_UPDATE jsval
  | unknown_type












subsection \<open>Leaving the session\<close>

text \<open>
  \<^verbatim>\<open>App\<close> holds the role and the room, \<^verbatim>\<open>BackendService.submitScore\<close> posts a
  \<^verbatim>\<open>ScoreData\<close> to \<^verbatim>\<open>/api/scores\<close>. The posted bodies are kept as a list, so
  that one can count them.
\<close>

datatype AppRole = LOBBY | PC_PLAYER | MOBILE_CONTROLLER

record ScoreData =
  player_id :: string
  score :: int
  max_combo :: int
  perfect_count :: int
  great_count :: int
  miss_count :: int

record world =
  role :: AppRole
  roomId :: string
  player :: game
  posted_scores :: "ScoreData list"

definition submitScore :: "ScoreData \<Rightarrow> world \<Rightarrow> world" where
  "submitScore d w = w\<lparr>posted_scores := posted_scores w @ [d]\<rparr>"

text \<open>\<^verbatim>\<open>handleExit\<close> of \<^verbatim>\<open>App\<close>: \<^verbatim>\<open>setRole(AppRole.LOBBY)\<close>.\<close>

definition App_handleExit :: "world \<Rightarrow> world" where
  "App_handleExit w = w\<lparr>role := LOBBY\<rparr>"

text \<open>
  \<^verbatim>\<open>handleExit\<close> of \<^verbatim>\<open>PCPlayer\<close>: its whole body is \<^verbatim>\<open>onExit()\<close>, and
  \<^verbatim>\<open>App\<close> passes its own \<^verbatim>\<open>handleExit\<close> as \<^verbatim>\<open>onExit\<close>.
\<close>

definition handleExit :: "(world \<Rightarrow> world) \<Rightarrow> world \<Rightarrow> world" where
  "handleExit onExit w = onExit w"

subsection \<open>Reading a session\<close>

text \<open>
  Note ids come from the counter \<^verbatim>\<open>nextNoteId\<close>: in a state reached from the initial
  one the ids in the list are distinct and below the counter.
\<close>

definition ids_fresh :: "game \<Rightarrow> bool" where
  "ids_fresh g \<longleftrightarrow>
     distinct (map note_id (notesRef g)) \<and>
     list_all (\<lambda>n. note_id n < nextNoteId g) (notesRef g)"

text \<open>The points that the loop adds to the score together with a rating.\<close>

fun points :: "rating \<Rightarrow> int" where
  "points PERFECT = 1000"
| "points GREAT = 500"
| "points MISS = 0"

text \<open>
  The specification's bookkeeping of combo and maxCombo for one resolved note, to compare
  with the refs: a Hit (rated PERFECT or GREAT) does \<open>combo += 1\<close> and
  \<open>maxCombo := max(maxCombo, combo)\<close>, a Miss does \<open>combo := 0\<close>. The player itself has
  no ref for maxCombo.
\<close>

fun spec_resolve :: "int \<times> int \<Rightarrow> rating \<Rightarrow> int \<times> int" where
  "spec_resolve (combo, maxCombo) r =
     (if r = MISS then (0, maxCombo) else (combo + 1, max maxCombo (combo + 1)))"

subsection \<open>Concrete inputs\<close>

text \<open>A pending note at a given position, and two pending notes 50 pixels apart.\<close>

definition note_G :: "real \<Rightarrow> Note" where
  "note_G x = \<lparr>note_id = 0, note_x = x, chordName = ''G'', hit = False, missed = False\<rparr>"

definition two_notes :: "Note list" where
  "two_notes =
     [\<lparr>note_id = 0, note_x = 1024, chordName = ''G'', hit = False, missed = False\<rparr>,
      \<lparr>note_id = 1, note_x = 974, chordName = ''C'', hit = False, missed = False\<rparr>]"





text \<open>A player in a running session, with an empty list of posted scores.\<close>

definition session_world :: world where
  "session_world =
     \<lparr>role = PC_PLAYER, roomId = ''TEST'',
      player = fst (snd (judge_note True (HIT_ZONE_X 1280) (note_G 1014)
                          (handleStart 1000 initial_game))),
      posted_scores = []\<rparr>"

text \<open>
  A hand whose wrist is at \<open>(wx, wy)\<close> and whose other twenty landmarks, the fingertips
  among them, are at height \<open>ty\<close>; a frame of a 1280 by 720 video in a window of width
  \<open>w\<close> and height 720, so that the vertical scale is 1; a frame with two hands.
\<close>

definition hand_at :: "real \<Rightarrow> real \<Rightarrow> real \<Rightarrow> prediction" where
  "hand_at wx wy ty = \<lparr>landmarks = [wx, wy, 0] # replicate 20 [wx, ty, 0]\<rparr>"

definition frame_at :: "int \<Rightarrow> real \<Rightarrow> prediction list \<Rightarrow> frame" where
  "frame_at t w hands =
     \<lparr>spawnNow = t, randomIndex = 1, predictions = hands, now = t,
      videoWidth = 1280, videoHeight = 720, dims_w = w, dims_h = 720\<rparr>"

definition two_hands :: frame where
  "two_hands = frame_at 2000 1280 [hand_at 100 500 500, hand_at 500 600 650]"

text \<open>
  Two sessions of six frames with four notes, spawned by the frames 1 to 4. The window is
  resized between the frames (widths 300, 62, 70 and 310), which moves the hit line. In
  both, a strum in frame 2 hits note 0, note 1 is missed in frame 4 and note 3 in frame 6.
  In session A a strum in frame 3 hits note 2 (note 1 is then exactly \<open>HIT_WINDOW\<close> past
  the hit line, neither hit nor missed) and the strum in frame 5 hits nothing; in session B
  the hand is above the strum zone in frame 3 and the strum in frame 5 hits note 2.
\<close>

definition session_A :: "frame list" where
  "session_A =
     [frame_at 2000 300 [hand_at 640 500 500],
      frame_at 3200 300 [hand_at 640 500 650],
      frame_at 4400 62 [hand_at 1200 500 500],
      frame_at 5600 70 [hand_at 1200 500 500],
      frame_at 6000 310 [hand_at 640 500 650],
      frame_at 6400 70 []]"

definition session_B :: "frame list" where
  "session_B =
     [frame_at 2000 300 [hand_at 640 500 500],
      frame_at 3200 300 [hand_at 640 500 650],
      frame_at 4400 300 [hand_at 640 500 400],
      frame_at 5600 70 [hand_at 1200 500 500],
      frame_at 6000 310 [hand_at 640 500 650],
      frame_at 6400 70 []]"

section \<open>Properties\<close>

lemmas consts_defs = NOTE_SPEED_def HIT_WINDOW_def STRUM_VELOCITY_THRESHOLD_def HIT_ZONE_X_def
  STRUM_ZONE_x_def STRUM_ZONE_y_def STRUM_ZONE_w_def STRUM_ZONE_h_def STRUM_MID_Y_def

lemmas eval_defs = consts_defs frame_at_def hand_at_def gameLoop_def detect_strum_def
  validHands_def select_hand_def avgTipY_def displayHandX_def hScale_def vScale_def
  in_strum_zone_def crossed_def spawnNote_def judge_note_def handleStart_def initial_game_def
  chords_def Let_def

subsection \<open>The note loop\<close>

lemma judge_note_terminal:
  "hit n \<or> missed n \<Longrightarrow> judge_note d HZX n g = (n, g, [])"
  by (auto simp: judge_note_def)

lemma judge_note_note:
  "fst (judge_note d HZX n g) =
     (if \<not> hit n \<and> \<not> missed n then
        n\<lparr>note_x := note_x n + NOTE_SPEED,
          hit := d \<and> \<bar>note_x n + NOTE_SPEED - HZX\<bar> < HIT_WINDOW,
          missed := note_x n + NOTE_SPEED > HZX + HIT_WINDOW\<rparr>
      else n)"
  by (auto simp: judge_note_def Let_def HIT_WINDOW_def NOTE_SPEED_def)

text \<open>What the loop does to a note does not depend on the refs.\<close>

lemma notes_loop_notes:
  "fst (notes_loop d HZX ns g) = map (\<lambda>n. fst (judge_note d HZX n g0)) ns"
proof (induction ns)
  case Nil
  then show ?case by simp
next
  case (Cons n ns)
  have "fst (judge_note d HZX n g1) = fst (judge_note d HZX n g0)" for g1
    by (simp add: judge_note_note)
  with Cons show ?case
    by (auto split: prod.splits) (metis fst_conv)+
qed

text \<open>
  C8. A strum on a pending note whose distance to the hit line, measured after this
  frame's advance, is below \<open>HIT_WINDOW\<close>: the note is hit and not missed, the combo
  grows by exactly 1 and the miss count stays; below \<open>HIT_WINDOW / 3.5\<close> the rating is
  PERFECT with 1000 points and one more perfect, otherwise GREAT with 500 points and one
  more great. A note that is on the hit line, before or after the advance, is PERFECT.
\<close>

theorem strum_hit_rating:
  assumes "\<not> hit n" "\<not> missed n" "\<bar>note_x n + NOTE_SPEED - HZX\<bar> < HIT_WINDOW"
  shows "case judge_note True HZX n g of (n', g', rs) \<Rightarrow>
           hit n' \<and> \<not> missed n' \<and> note_id n' = note_id n \<and>
           comboRef g' = comboRef g + 1 \<and> missCountRef g' = missCountRef g \<and>
           (if \<bar>note_x n + NOTE_SPEED - HZX\<bar> < HIT_WINDOW / 3.5
            then rs = [PERFECT] \<and> scoreRef g' = scoreRef g + 1000 \<and>
                 perfectCountRef g' = perfectCountRef g + 1 \<and> greatCountRef g' = greatCountRef g
            else rs = [GREAT] \<and> scoreRef g' = scoreRef g + 500 \<and>
                 greatCountRef g' = greatCountRef g + 1 \<and> perfectCountRef g' = perfectCountRef g) \<and>
           (note_x n + NOTE_SPEED = HZX \<or> note_x n = HZX \<longrightarrow> rs = [PERFECT])"
  using assms by (auto simp: judge_note_def Let_def HIT_WINDOW_def NOTE_SPEED_def)

theorem strum_hit_rating_witness:
  "\<not> hit (note_G 1014) \<and> \<not> missed (note_G 1014) \<and>
   \<bar>note_x (note_G 1014) + NOTE_SPEED - HIT_ZONE_X 1280\<bar> < HIT_WINDOW \<and>
   (case judge_note True (HIT_ZONE_X 1280) (note_G 1014) initial_game of
      (n', g', rs) \<Rightarrow>
        note_x n' = HIT_ZONE_X 1280 \<and> hit n' \<and> rs = [PERFECT] \<and>
        scoreRef g' = 1000 \<and> comboRef g' = 1)"
proof -
  have h1: "\<not> hit (note_G 1014)" and h2: "\<not> missed (note_G 1014)"
    by (simp_all add: note_G_def)
  have h3: "\<bar>note_x (note_G 1014) + NOTE_SPEED - HIT_ZONE_X 1280\<bar> < HIT_WINDOW"
    by (simp add: note_G_def NOTE_SPEED_def HIT_ZONE_X_def HIT_WINDOW_def)
  have x: "note_x (fst (judge_note True (HIT_ZONE_X 1280) (note_G 1014) initial_game)) =
           HIT_ZONE_X 1280"
    by (simp add: judge_note_def note_G_def NOTE_SPEED_def HIT_ZONE_X_def HIT_WINDOW_def Let_def)
  have e: "note_x (note_G 1014) + NOTE_SPEED = HIT_ZONE_X 1280"
    by (simp add: note_G_def NOTE_SPEED_def HIT_ZONE_X_def)
  show ?thesis
    using strum_hit_rating [OF h1 h2 h3, of initial_game] h1 h2 h3 x e
    by (auto simp: initial_game_def HIT_WINDOW_def split: prod.splits if_splits)
qed

text \<open>
  C1, as stated, fails: with two pending notes at distances 10 and 40 from the hit line of
  a 1280 pixel wide window, one strum hits both (1000 + 500 points, combo 2); the note at
  distance 40 does not stay pending.
\<close>

theorem nearest_note_counterexample:
  "map (\<lambda>n. \<bar>note_x n + NOTE_SPEED - HIT_ZONE_X 1280\<bar>) two_notes = [10, 40] \<and>
   map hit (fst (notes_loop True (HIT_ZONE_X 1280) two_notes initial_game)) = [True, True] \<and>
   scoreRef (fst (snd (notes_loop True (HIT_ZONE_X 1280) two_notes initial_game))) = 1500 \<and>
   comboRef (fst (snd (notes_loop True (HIT_ZONE_X 1280) two_notes initial_game))) = 2"
  by (simp add: two_notes_def judge_note_def Let_def HIT_WINDOW_def NOTE_SPEED_def
      HIT_ZONE_X_def initial_game_def)

text \<open>
  C1, amended. The loop has no nearest-note selection: after it, a note is hit exactly
  when it was hit before, or it was pending, the frame fired a strum and the note's
  distance to the hit line after the advance is below \<open>HIT_WINDOW\<close>. So a strum hits
  every pending note inside the window and no pending note outside it.
\<close>

theorem strum_hits_every_note_in_window:
  "map hit (fst (notes_loop didStrum HZX ns g)) =
     map (\<lambda>n. hit n \<or>
              (\<not> missed n \<and> didStrum \<and> \<bar>note_x n + NOTE_SPEED - HZX\<bar> < HIT_WINDOW)) ns"
  by (auto simp: notes_loop_notes [where ?g0.0 = g] judge_note_note)

text \<open>
  C2, as stated, fails: the first note of a session is spawned by the frame at 2000 ms.
  With one more frame at 3000 ms it has advanced to -68; with frames at 2500 ms and
  3000 ms it has advanced to -52. Both sessions cover the same second.
\<close>

theorem frame_rate_counterexample:
  "map note_x (notesRef (fst (run [frame_at 2000 1280 [], frame_at 3000 1280 []]
      (handleStart 1000 initial_game)))) = [- 68] \<and>
   map note_x (notesRef (fst (run
      [frame_at 2000 1280 [], frame_at 2500 1280 [], frame_at 3000 1280 []]
      (handleStart 1000 initial_game)))) = [- 52]"
  by (simp add: eval_defs)

text \<open>
  C2, amended. The loop never reads the clock: in every frame each pending note advances
  by exactly \<open>NOTE_SPEED\<close>, and a note that is hit or missed stays where it is.
\<close>

theorem pending_note_advances_per_frame:
  "map note_x (fst (notes_loop didStrum HZX ns g)) =
     map (\<lambda>n. if \<not> hit n \<and> \<not> missed n then note_x n + NOTE_SPEED else note_x n) ns"
  by (auto simp: notes_loop_notes [where ?g0.0 = g] judge_note_note)

subsection \<open>What the loop leaves alone\<close>

lemma judge_note_keeps:
  "lastStrumTimeRef (fst (snd (judge_note d HZX n g))) = lastStrumTimeRef g"
  "lastYRef (fst (snd (judge_note d HZX n g))) = lastYRef g"
  "nextNoteId (fst (snd (judge_note d HZX n g))) = nextNoteId g"
  "notesRef (fst (snd (judge_note d HZX n g))) = notesRef g"
  by (auto simp: judge_note_def Let_def)

lemma notes_loop_keeps:
  "lastStrumTimeRef (fst (snd (notes_loop d HZX ns g))) = lastStrumTimeRef g \<and>
   lastYRef (fst (snd (notes_loop d HZX ns g))) = lastYRef g \<and>
   nextNoteId (fst (snd (notes_loop d HZX ns g))) = nextNoteId g \<and>
   notesRef (fst (snd (notes_loop d HZX ns g))) = notesRef g"
proof (induction ns)
  case Nil
  then show ?case by simp
next
  case (Cons n ns)
  obtain ns' g1 log1 where l: "notes_loop d HZX ns g = (ns', g1, log1)"
    by (cases "notes_loop d HZX ns g")
  obtain n' g2 rs where j: "judge_note d HZX n g1 = (n', g2, rs)"
    by (cases "judge_note d HZX n g1")
  show ?case using Cons l j judge_note_keeps [of d HZX n g1] by simp
qed

lemma spawnNote_keeps:
  "lastStrumTimeRef (spawnNote t i g) = lastStrumTimeRef g"
  "lastYRef (spawnNote t i g) = lastYRef g"
  by (simp_all add: spawnNote_def)

lemma gameLoop_parts:
  "gameLoop f g =
     (let g0 = (if isAudioStartedRef g then spawnNote (spawnNow f) (randomIndex f) g else g);
          ds = detect_strum f g0;
          nl = notes_loop (fst ds) (HIT_ZONE_X (dims_w f)) (notesRef (snd (snd ds))) (snd (snd ds))
      in ((fst (snd nl))\<lparr>notesRef := filter (\<lambda>n. note_x n < dims_w f + 200 \<and> \<not> hit n) (fst nl)\<rparr>,
          fst ds, fst (snd ds), snd (snd nl)))"
  by (simp add: gameLoop_def Let_def split: prod.splits)

subsection \<open>Strum detection\<close>

lemma detect_strum_fires:
  "fst (detect_strum f g) \<longleftrightarrow>
     validHands f \<noteq> [] \<and>
     in_strum_zone f (displayHandX f (select_hand (validHands f)))
       (avgTipY f (select_hand (validHands f))) \<and>
     (\<exists>lastY. lastYRef g = Some lastY \<and>
        crossed f lastY (avgTipY f (select_hand (validHands f))) \<and>
        \<bar>avgTipY f (select_hand (validHands f)) - lastY\<bar> > STRUM_VELOCITY_THRESHOLD) \<and>
     now f - lastStrumTimeRef g > 150"
proof -
  have "validHands f \<noteq> [] \<Longrightarrow> predictions f \<noteq> []"
    by (auto simp: validHands_def)
  then show ?thesis
    by (auto simp: detect_strum_def Let_def split: option.splits)
qed

lemma detect_strum_time:
  "lastStrumTimeRef (snd (snd (detect_strum f g))) =
     (if fst (detect_strum f g) then now f else lastStrumTimeRef g)"
  by (auto simp: detect_strum_def Let_def split: option.splits)

lemma detect_strum_lastY:
  "lastYRef (snd (snd (detect_strum f g))) =
     (if validHands f = [] then lastYRef g
      else if in_strum_zone f (displayHandX f (select_hand (validHands f)))
                (avgTipY f (select_hand (validHands f)))
           then Some (avgTipY f (select_hand (validHands f))) else None)"
proof -
  have "validHands f \<noteq> [] \<Longrightarrow> predictions f \<noteq> []"
    by (auto simp: validHands_def)
  then show ?thesis
    by (auto simp: detect_strum_def Let_def split: option.splits)
qed

lemma detect_strum_spawn:
  "fst (detect_strum f (spawnNote t i g)) = fst (detect_strum f g)"
  by (simp add: detect_strum_fires spawnNote_keeps)

lemma gameLoop_fires:
  "fst (snd (gameLoop f g)) = fst (detect_strum f g)"
  by (simp add: gameLoop_parts Let_def detect_strum_spawn)

lemma gameLoop_time:
  "lastStrumTimeRef (fst (gameLoop f g)) =
     (if fst (snd (gameLoop f g)) then now f else lastStrumTimeRef g)"
  by (simp add: gameLoop_parts Let_def notes_loop_keeps detect_strum_time detect_strum_spawn
      spawnNote_keeps)

text \<open>
  The last height after a frame: reset when the selected hand is outside the strum zone,
  set when it is inside, and left as it was when no hand passes the gate.
\<close>

lemma gameLoop_lastY:
  "lastYRef (fst (gameLoop f g)) =
     (if validHands f = [] then lastYRef g
      else if in_strum_zone f (displayHandX f (select_hand (validHands f)))
                (avgTipY f (select_hand (validHands f)))
           then Some (avgTipY f (select_hand (validHands f))) else None)"
  by (simp add: gameLoop_parts Let_def notes_loop_keeps detect_strum_lastY spawnNote_keeps)

lemma strum_times_spaced:
  "(\<forall>t \<in> set (strum_times fs g). t - lastStrumTimeRef g > 150) \<and>
   sorted_wrt (\<lambda>a b. b - a > 150) (strum_times fs g)"
proof (induction fs arbitrary: g)
  case Nil
  then show ?case by simp
next
  case (Cons f fs)
  obtain g1 d dir shown where gl: "gameLoop f g = (g1, d, dir, shown)"
    by (cases "gameLoop f g")
  have t1: "lastStrumTimeRef g1 = (if d then now f else lastStrumTimeRef g)"
    using gameLoop_time [of f g] gl by simp
  have fire: "d \<Longrightarrow> now f - lastStrumTimeRef g > 150"
    using gameLoop_fires [of f g] gl by (simp add: detect_strum_fires)
  note IH = Cons.IH [of g1]
  show ?case
  proof (cases d)
    case True
    with IH t1 fire gl show ?thesis by (auto simp: sorted_wrt_append)
  next
    case False
    with IH t1 gl show ?thesis by simp
  qed
qed

text \<open>
  C9. For frames whose hands have the estimator's shape: a frame fires a strum exactly
  when a hand passes the gate, the selected hand is in
  the strum zone, a last height is stored, the heights cross the midline, the speed
  exceeds \<open>STRUM_VELOCITY_THRESHOLD\<close> and more than 150 ms have passed since the stored
  time of the last strum; that time becomes the frame's clock when the frame fires and is
  unchanged otherwise. Hence in every session, from any state, any two strums are more
  than 150 ms apart, the later one after the earlier one.
\<close>

theorem strum_debounce:
  assumes "wf_frame f" "list_all wf_frame fs"
  shows "(fst (snd (gameLoop f g)) \<longleftrightarrow>
     validHands f \<noteq> [] \<and>
     in_strum_zone f (displayHandX f (select_hand (validHands f)))
       (avgTipY f (select_hand (validHands f))) \<and>
     (\<exists>lastY. lastYRef g = Some lastY \<and>
        crossed f lastY (avgTipY f (select_hand (validHands f))) \<and>
        \<bar>avgTipY f (select_hand (validHands f)) - lastY\<bar> > STRUM_VELOCITY_THRESHOLD) \<and>
     now f - lastStrumTimeRef g > 150) \<and>
   lastStrumTimeRef (fst (gameLoop f g)) =
     (if fst (snd (gameLoop f g)) then now f else lastStrumTimeRef g) \<and>
   sorted_wrt (\<lambda>a b. b - a > 150) (strum_times fs g)"
  using gameLoop_time [of f g] strum_times_spaced [of fs g]
  by (simp add: gameLoop_fires detect_strum_fires)

theorem strum_debounce_witness:
  "wf_frame (frame_at 3200 300 [hand_at 640 500 650]) \<and> list_all wf_frame session_B \<and>
   strum_times session_B (handleStart 1000 initial_game) = [3200, 6000] \<and>
   sorted_wrt (\<lambda>a b. b - a > 150) (strum_times session_B (handleStart 1000 initial_game)) \<and>
   lastStrumTimeRef (fst (gameLoop (frame_at 3200 300 [hand_at 640 500 650])
      (handleStart 1000 initial_game))) = 0"
proof -
  have w1: "wf_frame (frame_at 3200 300 [hand_at 640 500 650])"
    by (simp add: wf_frame_def wf_prediction_def frame_at_def hand_at_def list_all_iff)
  have w2: "list_all wf_frame session_B"
    by (simp add: session_B_def wf_frame_def wf_prediction_def frame_at_def hand_at_def
        list_all_iff)
  have t: "strum_times session_B (handleStart 1000 initial_game) = [3200, 6000]"
    by (simp add: session_B_def eval_defs)
  have n: "\<not> fst (snd (gameLoop (frame_at 3200 300 [hand_at 640 500 650])
      (handleStart 1000 initial_game)))"
    by (simp add: eval_defs)
  have l: "lastStrumTimeRef (handleStart 1000 initial_game) = 0"
    by (simp add: handleStart_def initial_game_def)
  from strum_debounce [OF w1 w2, of "handleStart 1000 initial_game"]
  have "lastStrumTimeRef (fst (gameLoop (frame_at 3200 300 [hand_at 640 500 650])
          (handleStart 1000 initial_game))) =
        (if fst (snd (gameLoop (frame_at 3200 300 [hand_at 640 500 650])
                  (handleStart 1000 initial_game)))
         then now (frame_at 3200 300 [hand_at 640 500 650])
         else lastStrumTimeRef (handleStart 1000 initial_game))"
    and "sorted_wrt (\<lambda>a b. b - a > 150) (strum_times session_B (handleStart 1000 initial_game))"
    by blast+
  then show ?thesis using w1 w2 t n l by simp
qed

text \<open>
  C5 at a frame without hands. The first frame stores the height 500 of a hand in the
  strum zone, above the midline 576. The second frame has no hand: the stored height is
  still 500. The third frame, with the hand at height 650, pairs with that stale height
  and fires a strum.
\<close>

theorem gap_frame_keeps_last_position:
  "lastYRef (fst (gameLoop (frame_at 2000 1280 [hand_at 300 500 500]) initial_game)) = Some 500 \<and>
   lastYRef (fst (run [frame_at 2000 1280 [hand_at 300 500 500], frame_at 2100 1280 []]
      initial_game)) = Some 500 \<and>
   strum_times [frame_at 2000 1280 [hand_at 300 500 500], frame_at 2100 1280 [],
      frame_at 2200 1280 [hand_at 300 500 650]] initial_game = [2200]"
  by (simp add: eval_defs)

subsection \<open>Hand selection\<close>

text \<open>
  The fold returns the last hand of the list among those with the smallest wrist
  coordinate of the video frame.
\<close>

lemma select_hand_last_minimum:
  "\<exists>ys zs. a # xs = ys @ select_hand (a # xs) # zs \<and>
     (\<forall>p \<in> set ys. landmarks (select_hand (a # xs)) ! 0 ! 0 \<le> landmarks p ! 0 ! 0) \<and>
     (\<forall>p \<in> set zs. landmarks (select_hand (a # xs)) ! 0 ! 0 < landmarks p ! 0 ! 0)"
proof (induction xs rule: rev_induct)
  case Nil
  have "[a] = [] @ select_hand [a] # []" by (simp add: select_hand_def)
  then show ?case by fastforce
next
  case (snoc x xs)
  let ?r = "select_hand (a # xs)"
  from snoc obtain ys zs where split: "a # xs = ys @ ?r # zs"
    and le: "\<forall>p \<in> set ys. landmarks ?r ! 0 ! 0 \<le> landmarks p ! 0 ! 0"
    and less: "\<forall>p \<in> set zs. landmarks ?r ! 0 ! 0 < landmarks p ! 0 ! 0"
    by blast
  have step: "select_hand (a # xs @ [x]) =
              (if landmarks ?r ! 0 ! 0 < landmarks x ! 0 ! 0 then ?r else x)"
    by (simp add: select_hand_def)
  show ?case
  proof (cases "landmarks ?r ! 0 ! 0 < landmarks x ! 0 ! 0")
    case True
    have "a # xs @ [x] = ys @ ?r # (zs @ [x])" using split by simp
    moreover have "\<forall>p \<in> set (zs @ [x]). landmarks ?r ! 0 ! 0 < landmarks p ! 0 ! 0"
      using less True by simp
    ultimately have "\<exists>ys zs. a # xs @ [x] = ys @ ?r # zs \<and>
        (\<forall>p \<in> set ys. landmarks ?r ! 0 ! 0 \<le> landmarks p ! 0 ! 0) \<and>
        (\<forall>p \<in> set zs. landmarks ?r ! 0 ! 0 < landmarks p ! 0 ! 0)"
      using le by blast
    then show ?thesis using True step by simp
  next
    case False
    have all: "\<forall>p \<in> set (a # xs). landmarks x ! 0 ! 0 \<le> landmarks p ! 0 ! 0"
    proof
      fix p assume "p \<in> set (a # xs)"
      then have "p \<in> set ys \<or> p = ?r \<or> p \<in> set zs"
        using split by (metis Un_iff set_ConsD set_append)
      then have "landmarks ?r ! 0 ! 0 \<le> landmarks p ! 0 ! 0" using le less by fastforce
      then show "landmarks x ! 0 ! 0 \<le> landmarks p ! 0 ! 0" using False by simp
    qed
    have "a # xs @ [x] = (a # xs) @ x # []" by simp
    moreover have "\<forall>p \<in> set []. landmarks x ! 0 ! 0 < landmarks p ! 0 ! 0" by simp
    ultimately have "\<exists>ys zs. a # xs @ [x] = ys @ x # zs \<and>
        (\<forall>p \<in> set ys. landmarks x ! 0 ! 0 \<le> landmarks p ! 0 ! 0) \<and>
        (\<forall>p \<in> set zs. landmarks x ! 0 ! 0 < landmarks p ! 0 ! 0)"
      using all by blast
    then show ?thesis using False step by simp
  qed
qed

text \<open>
  C6, as stated, fails: of two hands past the gate with wrists at 100 and 500 in the
  video, the fold selects the first; on the mirrored display it is at 1180, the other at
  780, so the selected hand is not the one with the smallest display coordinate.
\<close>

theorem leftmost_hand_counterexample:
  "validHands two_hands = [hand_at 100 500 500, hand_at 500 600 650] \<and>
   select_hand (validHands two_hands) = hand_at 100 500 500 \<and>
   displayHandX two_hands (hand_at 100 500 500) = 1180 \<and>
   displayHandX two_hands (hand_at 500 600 650) = 780"
  by (simp add: two_hands_def eval_defs)

text \<open>
  C6, amended. In a frame whose hands have the estimator's shape and of which some hand
  passes the wrist-height gate, the selected hand is one of
  them, with the smallest wrist x in video coordinates, and the last such hand in
  detection order; the display being mirrored, it has the largest display coordinate
  whenever the horizontal scale is not negative. Its position is the mirrored wrist x,
  \<open>CANVAS_W - x * hScale\<close>, and the mean height of the landmarks 8, 12 and 16 times
  \<open>vScale\<close>: this pair decides the zone test, and the height is what the frame stores.
\<close>

theorem hand_selection:
  assumes "wf_frame f" "validHands f \<noteq> []"
  shows "(\<exists>ys zs. validHands f = ys @ select_hand (validHands f) # zs \<and>
            (\<forall>p \<in> set ys. landmarks (select_hand (validHands f)) ! 0 ! 0 \<le> landmarks p ! 0 ! 0) \<and>
            (\<forall>p \<in> set zs. landmarks (select_hand (validHands f)) ! 0 ! 0 < landmarks p ! 0 ! 0)) \<and>
         (0 \<le> hScale f \<longrightarrow>
            (\<forall>p \<in> set (validHands f).
               displayHandX f p \<le> displayHandX f (select_hand (validHands f)))) \<and>
         displayHandX f (select_hand (validHands f)) =
           dims_w f - landmarks (select_hand (validHands f)) ! 0 ! 0 * (dims_w f / videoWidth f) \<and>
         avgTipY f (select_hand (validHands f)) =
           (landmarks (select_hand (validHands f)) ! 8 ! 1 +
            landmarks (select_hand (validHands f)) ! 12 ! 1 +
            landmarks (select_hand (validHands f)) ! 16 ! 1) / 3 * (dims_h f / videoHeight f) \<and>
         lastYRef (fst (gameLoop f g)) =
           (if in_strum_zone f (displayHandX f (select_hand (validHands f)))
                 (avgTipY f (select_hand (validHands f)))
            then Some (avgTipY f (select_hand (validHands f))) else None)"
proof -
  let ?h = "select_hand (validHands f)"
  obtain a xs where vs: "validHands f = a # xs"
    using assms(2) by (cases "validHands f") auto
  from select_hand_last_minimum [of a xs] obtain ys zs
    where split: "validHands f = ys @ ?h # zs"
      and le: "\<forall>p \<in> set ys. landmarks ?h ! 0 ! 0 \<le> landmarks p ! 0 ! 0"
      and less: "\<forall>p \<in> set zs. landmarks ?h ! 0 ! 0 < landmarks p ! 0 ! 0"
    unfolding vs by blast
  have smallest: "landmarks ?h ! 0 ! 0 \<le> landmarks p ! 0 ! 0" if "p \<in> set (validHands f)" for p
  proof -
    from that have "p \<in> set ys \<or> p = ?h \<or> p \<in> set zs"
      using split by (metis Un_iff set_ConsD set_append)
    then show ?thesis using le less by fastforce
  qed
  have mirrored: "displayHandX f p \<le> displayHandX f ?h"
    if "0 \<le> hScale f" "p \<in> set (validHands f)" for p
    using smallest [OF that(2)] that(1) by (simp add: displayHandX_def mult_right_mono)
  show ?thesis
    using split le less mirrored assms(2)
    by (auto simp: gameLoop_lastY displayHandX_def avgTipY_def hScale_def vScale_def)
qed

theorem hand_selection_witness:
  "wf_frame two_hands \<and> validHands two_hands \<noteq> [] \<and> 0 \<le> hScale two_hands \<and>
   select_hand (validHands two_hands) = hand_at 100 500 500 \<and>
   displayHandX two_hands (hand_at 500 600 650) \<le>
     displayHandX two_hands (select_hand (validHands two_hands)) \<and>
   lastYRef (fst (gameLoop two_hands initial_game)) = Some 500"
proof -
  have w: "wf_frame two_hands"
    by (simp add: two_hands_def wf_frame_def wf_prediction_def frame_at_def hand_at_def
        list_all_iff)
  have v: "validHands two_hands \<noteq> []"
    by (simp add: two_hands_def eval_defs)
  have s: "0 \<le> hScale two_hands"
    by (simp add: two_hands_def eval_defs)
  have h: "select_hand (validHands two_hands) = hand_at 100 500 500"
    by (simp add: two_hands_def eval_defs)
  have y: "avgTipY two_hands (hand_at 100 500 500) = 500"
    by (simp add: two_hands_def eval_defs)
  have z: "in_strum_zone two_hands (displayHandX two_hands (hand_at 100 500 500)) 500"
    by (simp add: two_hands_def eval_defs)
  note t = hand_selection [OF w v, of initial_game]
  have "hand_at 500 600 650 \<in> set (validHands two_hands)"
    by (simp add: two_hands_def eval_defs)
  with t s have m: "displayHandX two_hands (hand_at 500 600 650) \<le>
      displayHandX two_hands (select_hand (validHands two_hands))"
    by blast
  from t have "lastYRef (fst (gameLoop two_hands initial_game)) =
      (if in_strum_zone two_hands (displayHandX two_hands (select_hand (validHands two_hands)))
            (avgTipY two_hands (select_hand (validHands two_hands)))
       then Some (avgTipY two_hands (select_hand (validHands two_hands))) else None)"
    by blast
  then have l: "lastYRef (fst (gameLoop two_hands initial_game)) = Some 500"
    unfolding h y using z by simp
  show ?thesis
    using w v s h m l by blast
qed

subsection \<open>Chord changes\<close>










subsection \<open>Leaving the session\<close>

text \<open>
  C4, as stated, fails: a player who has scored 1000 points leaves, and the list of
  posted scores is still empty; nothing has been handed to the score submission.
\<close>

theorem exit_posts_no_score_counterexample:
  "scoreRef (player session_world) = 1000 \<and>
   posted_scores (handleExit App_handleExit session_world) = []"
  by (simp add: session_world_def handleExit_def App_handleExit_def judge_note_def
      handleStart_def initial_game_def note_G_def Let_def HIT_ZONE_X_def HIT_WINDOW_def
      NOTE_SPEED_def)

text \<open>
  C4, amended. Leaving only sets the role to the lobby: it posts no score, it leaves the
  refs of the player as they are, and doing it again changes nothing.
\<close>

theorem exit_only_returns_to_lobby:
  "handleExit App_handleExit w = w\<lparr>role := LOBBY\<rparr> \<and>
   posted_scores (handleExit App_handleExit w) = posted_scores w \<and>
   player (handleExit App_handleExit w) = player w \<and>
   handleExit App_handleExit (handleExit App_handleExit w) = handleExit App_handleExit w"
  by (simp add: handleExit_def App_handleExit_def)

subsection \<open>Every note is resolved at most once\<close>

lemma judge_note_shown:
  "snd (snd (judge_note d HZX n g)) =
     (if \<not> hit n \<and> \<not> missed n then
        if d \<and> \<bar>note_x n + NOTE_SPEED - HZX\<bar> < HIT_WINDOW
        then [if \<bar>note_x n + NOTE_SPEED - HZX\<bar> < HIT_WINDOW / 3.5 then PERFECT else GREAT]
        else if note_x n + NOTE_SPEED > HZX + HIT_WINDOW then [MISS] else []
      else [])"
  by (auto simp: judge_note_def Let_def HIT_WINDOW_def NOTE_SPEED_def)

lemma judge_note_shown_ids:
  "map (\<lambda>r. i) (snd (snd (judge_note d HZX n g))) =
     (if snd (snd (judge_note d HZX n g0)) \<noteq> [] then [i] else [])"
  by (simp add: judge_note_shown)

lemma judge_note_resolved:
  assumes "snd (snd (judge_note d HZX n g)) \<noteq> []"
  shows "\<not> hit n \<and> \<not> missed n \<and>
         (hit (fst (judge_note d HZX n g0)) \<or> missed (fst (judge_note d HZX n g0)))"
  using assms by (auto simp: judge_note_shown judge_note_note split: if_splits)

lemma judge_note_id: "note_id (fst (judge_note d HZX n g)) = note_id n"
  by (simp add: judge_note_note)

lemma notes_loop_ids:
  "map fst (snd (snd (notes_loop d HZX ns g))) =
     rev (map note_id (filter (\<lambda>n. snd (snd (judge_note d HZX n g0)) \<noteq> []) ns))"
proof (induction ns)
  case Nil
  then show ?case by simp
next
  case (Cons n ns)
  obtain ns' g1 log1 where l: "notes_loop d HZX ns g = (ns', g1, log1)"
    by (cases "notes_loop d HZX ns g")
  obtain n' g2 rs where j: "judge_note d HZX n g1 = (n', g2, rs)"
    by (cases "judge_note d HZX n g1")
  have "map (\<lambda>r. note_id n) rs = (if snd (snd (judge_note d HZX n g0)) \<noteq> [] then [note_id n] else [])"
    using judge_note_shown_ids [of "note_id n" d HZX n g1 g0] j by simp
  then show ?case using Cons l j by (simp add: comp_def)
qed

lemma detect_strum_keeps:
  "notesRef (snd (snd (detect_strum f g))) = notesRef g"
  "nextNoteId (snd (snd (detect_strum f g))) = nextNoteId g"
  by (auto simp: detect_strum_def Let_def split: option.splits)

lemma spawn_extra:
  "\<exists>extra. (extra = [] \<or>
        extra = [\<lparr>note_id = nextNoteId g, note_x = - 100, chordName = chords ! i,
                  hit = False, missed = False\<rparr>]) \<and>
     notesRef (if isAudioStartedRef g then spawnNote t i g else g) = notesRef g @ extra \<and>
     nextNoteId (if isAudioStartedRef g then spawnNote t i g else g) = nextNoteId g + length extra"
  by (auto simp: spawnNote_def)

lemma gameLoop_notes:
  "\<exists>extra. (extra = [] \<or>
        extra = [\<lparr>note_id = nextNoteId g, note_x = - 100, chordName = chords ! randomIndex f,
                  hit = False, missed = False\<rparr>]) \<and>
     nextNoteId (fst (gameLoop f g)) = nextNoteId g + length extra \<and>
     notesRef (fst (gameLoop f g)) =
       filter (\<lambda>n. note_x n < dims_w f + 200 \<and> \<not> hit n)
         (map (\<lambda>n. fst (judge_note (fst (snd (gameLoop f g))) (HIT_ZONE_X (dims_w f)) n g0))
            (notesRef g @ extra)) \<and>
     map fst (snd (snd (snd (gameLoop f g)))) =
       rev (map note_id
         (filter (\<lambda>n. snd (snd (judge_note (fst (snd (gameLoop f g))) (HIT_ZONE_X (dims_w f)) n g0)) \<noteq> [])
            (notesRef g @ extra)))"
proof -
  let ?g0 = "if isAudioStartedRef g then spawnNote (spawnNow f) (randomIndex f) g else g"
  let ?ds = "detect_strum f ?g0"
  let ?d = "fst ?ds"
  let ?h = "HIT_ZONE_X (dims_w f)"
  let ?nl = "notes_loop ?d ?h (notesRef ?g0) (snd (snd ?ds))"
  from spawn_extra [of g "randomIndex f" "spawnNow f"] obtain extra where
    e: "extra = [] \<or> extra = [\<lparr>note_id = nextNoteId g, note_x = - 100,
          chordName = chords ! randomIndex f, hit = False, missed = False\<rparr>]"
    and n0: "notesRef ?g0 = notesRef g @ extra"
    and k0: "nextNoteId ?g0 = nextNoteId g + length extra"
    by blast
  have d: "fst (snd (gameLoop f g)) = ?d"
    by (simp add: gameLoop_parts Let_def detect_strum_keeps)
  have a: "nextNoteId (fst (gameLoop f g)) = nextNoteId g + length extra"
    using k0 by (simp add: gameLoop_parts Let_def notes_loop_keeps detect_strum_keeps)
  have b: "notesRef (fst (gameLoop f g)) =
       filter (\<lambda>n. note_x n < dims_w f + 200 \<and> \<not> hit n)
         (map (\<lambda>n. fst (judge_note ?d ?h n g0)) (notesRef g @ extra))"
    using n0 notes_loop_notes [of ?d ?h "notesRef ?g0" "snd (snd ?ds)" g0]
    by (simp add: gameLoop_parts Let_def detect_strum_keeps)
  have c: "map fst (snd (snd (snd (gameLoop f g)))) =
       rev (map note_id (filter (\<lambda>n. snd (snd (judge_note ?d ?h n g0)) \<noteq> []) (notesRef g @ extra)))"
    using n0 notes_loop_ids [of ?d ?h "notesRef ?g0" "snd (snd ?ds)" g0]
    by (simp add: gameLoop_parts Let_def detect_strum_keeps)
  show ?thesis using e a b c unfolding d by blast
qed

lemma gameLoop_step_inv:
  assumes fresh: "ids_fresh g" and dL: "distinct L"
    and old: "\<forall>i \<in> set L. i < nextNoteId g \<and>
                (\<forall>n \<in> set (notesRef g). note_id n = i \<longrightarrow> hit n \<or> missed n)"
  shows "ids_fresh (fst (gameLoop f g)) \<and>
         distinct (L @ map fst (snd (snd (snd (gameLoop f g))))) \<and>
         (\<forall>i \<in> set (L @ map fst (snd (snd (snd (gameLoop f g))))).
            i < nextNoteId (fst (gameLoop f g)) \<and>
            (\<forall>n \<in> set (notesRef (fst (gameLoop f g))). note_id n = i \<longrightarrow> hit n \<or> missed n))"
proof -
  let ?g' = "fst (gameLoop f g)"
  let ?S = "map fst (snd (snd (snd (gameLoop f g))))"
  let ?d = "fst (snd (gameLoop f g))"
  let ?h = "HIT_ZONE_X (dims_w f)"
  let ?J = "\<lambda>n. fst (judge_note ?d ?h n g)"
  let ?P = "\<lambda>n. snd (snd (judge_note ?d ?h n g)) \<noteq> []"
  from gameLoop_notes [of g f g] obtain extra where
    e: "extra = [] \<or> extra = [\<lparr>note_id = nextNoteId g, note_x = - 100,
          chordName = chords ! randomIndex f, hit = False, missed = False\<rparr>]"
    and k: "nextNoteId ?g' = nextNoteId g + length extra"
    and ns: "notesRef ?g' = filter (\<lambda>n. note_x n < dims_w f + 200 \<and> \<not> hit n)
               (map ?J (notesRef g @ extra))"
    and sh: "?S = rev (map note_id (filter ?P (notesRef g @ extra)))"
    by blast
  let ?N = "notesRef g @ extra"
  have below: "\<forall>n \<in> set (notesRef g). note_id n < nextNoteId g"
    using fresh by (simp add: ids_fresh_def list_all_iff)
  have dN: "distinct (map note_id ?N)"
    using fresh e below by (auto simp: ids_fresh_def)
  have bN: "\<forall>n \<in> set ?N. note_id n < nextNoteId ?g'"
    using below e k by auto
  have extra_id: "\<forall>n \<in> set extra. note_id n = nextNoteId g"
    using e by auto
  have idJ: "map note_id (map ?J ?N) = map note_id ?N"
    by (simp add: judge_note_id comp_def)
  have "distinct (map note_id (map ?J ?N))" unfolding idJ by (rule dN)
  then have d': "distinct (map note_id (notesRef ?g'))"
    unfolding ns by (rule distinct_map_filter)
  have b': "\<forall>n \<in> set (notesRef ?g'). note_id n < nextNoteId ?g'"
    unfolding ns using bN by (auto simp: judge_note_id)
  have fresh': "ids_fresh ?g'"
    using d' b' by (simp add: ids_fresh_def list_all_iff)
  have dS: "distinct ?S"
    unfolding sh distinct_rev by (rule distinct_map_filter [OF dN])
  have old_done: "hit n \<or> missed n" if "i \<in> set L" "n \<in> set ?N" "note_id n = i" for i n
  proof -
    from that(1) old have "i < nextNoteId g" by blast
    with that(2,3) extra_id have "n \<in> set (notesRef g)" by auto
    with that old show ?thesis by blast
  qed
  have disj: "set L \<inter> set ?S = {}"
  proof (rule ccontr)
    assume "set L \<inter> set ?S \<noteq> {}"
    then obtain i where iL: "i \<in> set L" and iS: "i \<in> set ?S" by blast
    from iS obtain n where n: "n \<in> set ?N" "?P n" "note_id n = i"
      unfolding sh by auto
    from old_done [OF iL n(1) n(3)] judge_note_resolved [OF n(2), of g] show False by blast
  qed
  have dLS: "distinct (L @ ?S)" using dL dS disj by simp
  have done': "hit n' \<or> missed n'"
    if i: "i \<in> set (L @ ?S)" and n': "n' \<in> set (notesRef ?g')" and id: "note_id n' = i" for i n'
  proof -
    from n' obtain n where n: "n \<in> set ?N" "n' = ?J n"
      unfolding ns by auto
    have idn: "note_id n = i" using n(2) id by (simp add: judge_note_id)
    from i consider "i \<in> set L" | "i \<in> set ?S" by auto
    then show ?thesis
    proof cases
      case 1
      from old_done [OF 1 n(1) idn] have "judge_note ?d ?h n g = (n, g, [])"
        by (rule judge_note_terminal)
      then have "n' = n" using n(2) by simp
      with old_done [OF 1 n(1) idn] show ?thesis by simp
    next
      case 2
      then obtain m where m: "m \<in> set ?N" "?P m" "note_id m = i"
        unfolding sh by auto
      have "inj_on note_id (set ?N)" using dN unfolding distinct_map by (rule conjunct2)
      with m(1,3) n(1) idn have "m = n" by (auto dest: inj_onD)
      with judge_note_resolved [OF m(2), of g] n(2) show ?thesis by simp
    qed
  qed
  have bound: "i < nextNoteId ?g'" if "i \<in> set (L @ ?S)" for i
  proof -
    from that consider "i \<in> set L" | "i \<in> set ?S" by auto
    then show ?thesis
    proof cases
      case 1
      with old k show ?thesis by fastforce
    next
      case 2
      then obtain m where "m \<in> set ?N" "note_id m = i" unfolding sh by auto
      with bN show ?thesis by blast
    qed
  qed
  show ?thesis using fresh' dLS done' bound by blast
qed

lemma run_inv:
  assumes "ids_fresh g" "distinct L"
    "\<forall>i \<in> set L. i < nextNoteId g \<and>
        (\<forall>n \<in> set (notesRef g). note_id n = i \<longrightarrow> hit n \<or> missed n)"
  shows "distinct (L @ map fst (snd (run fs g)))"
  using assms
proof (induction fs arbitrary: g L)
  case Nil
  then show ?case by simp
next
  case (Cons f fs)
  obtain g1 d dir log1 where gl: "gameLoop f g = (g1, d, dir, log1)"
    by (cases "gameLoop f g")
  obtain g2 log2 where r: "run fs g1 = (g2, log2)"
    by (cases "run fs g1")
  from gameLoop_step_inv [OF Cons.prems, of f] gl
  have "ids_fresh g1" "distinct (L @ map fst log1)"
    "\<forall>i \<in> set (L @ map fst log1). i < nextNoteId g1 \<and>
        (\<forall>n \<in> set (notesRef g1). note_id n = i \<longrightarrow> hit n \<or> missed n)"
    by simp_all
  from Cons.IH [OF this] r have "distinct ((L @ map fst log1) @ map fst log2)" by simp
  then show ?case using gl r by simp
qed

subsection \<open>The refs and the ratings of a session\<close>

lemma spec_resolve_fst:
  "fst (foldl spec_resolve (c, m) rs) = fst (foldl spec_resolve (c, m') rs)"
proof (induction rs arbitrary: c m m')
  case Nil
  then show ?case by simp
next
  case (Cons r rs)
  show ?case using Cons [of _ "max m (c + 1)" "max m' (c + 1)"] Cons [of 0 m m'] by simp
qed

lemma spec_resolve_max:
  "0 \<le> m \<Longrightarrow> c \<le> m \<Longrightarrow>
   fst (foldl spec_resolve (c, m) rs) \<le> snd (foldl spec_resolve (c, m) rs)"
  by (induction rs arbitrary: c m) auto

lemma judge_note_refs:
  "scoreRef (fst (snd (judge_note d h n g))) =
     scoreRef g + sum_list (map points (snd (snd (judge_note d h n g)))) \<and>
   perfectCountRef (fst (snd (judge_note d h n g))) =
     perfectCountRef g + int (count_list (snd (snd (judge_note d h n g))) PERFECT) \<and>
   greatCountRef (fst (snd (judge_note d h n g))) =
     greatCountRef g + int (count_list (snd (snd (judge_note d h n g))) GREAT) \<and>
   missCountRef (fst (snd (judge_note d h n g))) =
     missCountRef g + int (count_list (snd (snd (judge_note d h n g))) MISS) \<and>
   comboRef (fst (snd (judge_note d h n g))) =
     fst (foldl spec_resolve (comboRef g, m) (snd (snd (judge_note d h n g))))"
  by (auto simp: judge_note_def Let_def)

lemma count_list_append':
  "count_list (xs @ ys) x = count_list xs x + count_list ys x"
  by (induction xs) auto

lemma notes_loop_refs:
  "scoreRef (fst (snd (notes_loop d h ns g))) =
     scoreRef g + sum_list (map (\<lambda>e. points (snd e)) (snd (snd (notes_loop d h ns g)))) \<and>
   perfectCountRef (fst (snd (notes_loop d h ns g))) =
     perfectCountRef g + int (count_list (map snd (snd (snd (notes_loop d h ns g)))) PERFECT) \<and>
   greatCountRef (fst (snd (notes_loop d h ns g))) =
     greatCountRef g + int (count_list (map snd (snd (snd (notes_loop d h ns g)))) GREAT) \<and>
   missCountRef (fst (snd (notes_loop d h ns g))) =
     missCountRef g + int (count_list (map snd (snd (snd (notes_loop d h ns g)))) MISS) \<and>
   comboRef (fst (snd (notes_loop d h ns g))) =
     fst (foldl spec_resolve (comboRef g, m) (map snd (snd (snd (notes_loop d h ns g)))))"
proof (induction ns)
  case Nil
  then show ?case by simp
next
  case (Cons n ns)
  obtain ns' g1 log1 where l: "notes_loop d h ns g = (ns', g1, log1)"
    by (cases "notes_loop d h ns g")
  obtain n' g2 rs where j: "judge_note d h n g1 = (n', g2, rs)"
    by (cases "judge_note d h n g1")
  obtain c1 m1 where f1: "foldl spec_resolve (comboRef g, m) (map snd log1) = (c1, m1)"
    by (cases "foldl spec_resolve (comboRef g, m) (map snd log1)")
  have c1: "comboRef g1 = c1" using Cons l f1 by simp
  note J = judge_note_refs [of d h n g1 m1]
  show ?case using Cons l j J f1 c1
    by (simp add: comp_def count_list_append')
qed

lemma detect_strum_keeps_score:
  "scoreRef (snd (snd (detect_strum f g))) = scoreRef g"
  "comboRef (snd (snd (detect_strum f g))) = comboRef g"
  "perfectCountRef (snd (snd (detect_strum f g))) = perfectCountRef g"
  "greatCountRef (snd (snd (detect_strum f g))) = greatCountRef g"
  "missCountRef (snd (snd (detect_strum f g))) = missCountRef g"
  by (auto simp: detect_strum_def Let_def split: option.splits)

lemma spawnNote_keeps_score:
  "scoreRef (spawnNote t i g) = scoreRef g"
  "comboRef (spawnNote t i g) = comboRef g"
  "perfectCountRef (spawnNote t i g) = perfectCountRef g"
  "greatCountRef (spawnNote t i g) = greatCountRef g"
  "missCountRef (spawnNote t i g) = missCountRef g"
  by (simp_all add: spawnNote_def)

lemma gameLoop_refs:
  "scoreRef (fst (gameLoop f g)) =
     scoreRef g + sum_list (map (\<lambda>e. points (snd e)) (snd (snd (snd (gameLoop f g))))) \<and>
   perfectCountRef (fst (gameLoop f g)) =
     perfectCountRef g + int (count_list (map snd (snd (snd (snd (gameLoop f g))))) PERFECT) \<and>
   greatCountRef (fst (gameLoop f g)) =
     greatCountRef g + int (count_list (map snd (snd (snd (snd (gameLoop f g))))) GREAT) \<and>
   missCountRef (fst (gameLoop f g)) =
     missCountRef g + int (count_list (map snd (snd (snd (snd (gameLoop f g))))) MISS) \<and>
   comboRef (fst (gameLoop f g)) =
     fst (foldl spec_resolve (comboRef g, m) (map snd (snd (snd (snd (gameLoop f g))))))"
proof -
  let ?g0 = "if isAudioStartedRef g then spawnNote (spawnNow f) (randomIndex f) g else g"
  let ?ds = "detect_strum f ?g0"
  note N = notes_loop_refs [of "fst ?ds" "HIT_ZONE_X (dims_w f)" "notesRef (snd (snd ?ds))"
      "snd (snd ?ds)" m]
  show ?thesis
    using N by (simp add: gameLoop_parts Let_def detect_strum_keeps_score spawnNote_keeps_score)
qed

lemma run_refs:
  "scoreRef (fst (run fs g)) = scoreRef g + sum_list (map (\<lambda>e. points (snd e)) (snd (run fs g))) \<and>
   perfectCountRef (fst (run fs g)) =
     perfectCountRef g + int (count_list (map snd (snd (run fs g))) PERFECT) \<and>
   greatCountRef (fst (run fs g)) =
     greatCountRef g + int (count_list (map snd (snd (run fs g))) GREAT) \<and>
   missCountRef (fst (run fs g)) =
     missCountRef g + int (count_list (map snd (snd (run fs g))) MISS) \<and>
   comboRef (fst (run fs g)) =
     fst (foldl spec_resolve (comboRef g, m) (map snd (snd (run fs g))))"
proof (induction fs arbitrary: g m)
  case Nil
  then show ?case by simp
next
  case (Cons f fs)
  obtain g1 d dir log1 where gl: "gameLoop f g = (g1, d, dir, log1)"
    by (cases "gameLoop f g")
  obtain g2 log2 where r: "run fs g1 = (g2, log2)"
    by (cases "run fs g1")
  obtain c1 m1 where f1: "foldl spec_resolve (comboRef g, m) (map snd log1) = (c1, m1)"
    by (cases "foldl spec_resolve (comboRef g, m) (map snd log1)")
  have c1: "comboRef g1 = c1" using gameLoop_refs [of f g m] gl f1 by simp
  show ?case
    using gameLoop_refs [of f g m] Cons [of g1 m1] gl r f1 c1
    by (simp add: count_list_append' comp_def)
qed

lemma spec_resolve_nonneg:
  "0 \<le> c \<Longrightarrow> 0 \<le> fst (foldl spec_resolve (c, m) rs)"
  by (induction rs arbitrary: c m) auto

text \<open>
  C7. In a session that starts with fresh ids and whose frames have the estimator's shape,
  the ratings PERFECT, GREAT and MISS are shown for pairwise distinct notes: no note is
  resolved twice, and none is both hit and missed. A note that is hit or missed is left
  alone by the loop: the note, the refs and the ratings are unchanged. After any frame no
  hit note is left in the list. Score and counts change by the shown ratings only: the
  score by their points, each count by the number of its ratings.
\<close>

theorem note_resolved_at_most_once:
  assumes "ids_fresh g" "list_all wf_frame fs"
  shows "distinct (map fst (snd (run fs g))) \<and>
         judge_note d HZX (n\<lparr>hit := True\<rparr>) g' = (n\<lparr>hit := True\<rparr>, g', []) \<and>
         judge_note d HZX (n\<lparr>missed := True\<rparr>) g' = (n\<lparr>missed := True\<rparr>, g', []) \<and>
         list_all (\<lambda>n. \<not> hit n) (notesRef (fst (run fs (fst (gameLoop f g))))) \<and>
         scoreRef (fst (run fs g)) =
           scoreRef g + sum_list (map (\<lambda>e. points (snd e)) (snd (run fs g))) \<and>
         perfectCountRef (fst (run fs g)) =
           perfectCountRef g + int (count_list (map snd (snd (run fs g))) PERFECT) \<and>
         greatCountRef (fst (run fs g)) =
           greatCountRef g + int (count_list (map snd (snd (run fs g))) GREAT) \<and>
         missCountRef (fst (run fs g)) =
           missCountRef g + int (count_list (map snd (snd (run fs g))) MISS)"
proof -
  have a: "distinct (map fst (snd (run fs g)))"
    using run_inv [of g "[]" fs] assms(1) by simp
  have b: "judge_note d HZX (n\<lparr>hit := True\<rparr>) g' = (n\<lparr>hit := True\<rparr>, g', [])"
    "judge_note d HZX (n\<lparr>missed := True\<rparr>) g' = (n\<lparr>missed := True\<rparr>, g', [])"
    by (simp_all add: judge_note_terminal)
  have one: "list_all (\<lambda>n. \<not> hit n) (notesRef (fst (gameLoop f0 g0)))" for f0 g0
    by (simp add: gameLoop_parts Let_def list_all_iff)
  have c: "list_all (\<lambda>n. \<not> hit n) (notesRef g0) \<Longrightarrow>
           list_all (\<lambda>n. \<not> hit n) (notesRef (fst (run fs0 g0)))" for fs0 g0
  proof (induction fs0 arbitrary: g0)
    case Nil
    then show ?case by simp
  next
    case (Cons f0 fs0)
    show ?case using Cons.IH [OF one [of f0 g0]]
      by (simp split: prod.splits) (metis fst_conv)
  qed
  show ?thesis
    using a b c [OF one [of f g], of fs] run_refs [of fs g 0] by simp
qed

theorem note_resolved_at_most_once_witness:
  "ids_fresh (handleStart 1000 initial_game) \<and> list_all wf_frame session_B \<and>
   map fst (snd (run session_B (handleStart 1000 initial_game))) = [0, 1, 2, 3] \<and>
   distinct (map fst (snd (run session_B (handleStart 1000 initial_game)))) \<and>
   scoreRef (fst (run session_B (handleStart 1000 initial_game))) = 1000"
proof -
  have i: "ids_fresh (handleStart 1000 initial_game)"
    by (simp add: ids_fresh_def handleStart_def initial_game_def)
  have w: "list_all wf_frame session_B"
    by (simp add: session_B_def wf_frame_def wf_prediction_def frame_at_def hand_at_def list_all_iff)
  have l: "snd (run session_B (handleStart 1000 initial_game)) =
           [(0, GREAT), (1, MISS), (2, GREAT), (3, MISS)]"
    by (simp add: session_B_def eval_defs)
  from note_resolved_at_most_once [OF i w]
  have "distinct (map fst (snd (run session_B (handleStart 1000 initial_game))))"
    and "scoreRef (fst (run session_B (handleStart 1000 initial_game))) =
         scoreRef (handleStart 1000 initial_game) +
         sum_list (map (\<lambda>e. points (snd e)) (snd (run session_B (handleStart 1000 initial_game))))"
    by blast+
  then show ?thesis using i w l by (simp add: handleStart_def initial_game_def)
qed

text \<open>
  C3, as stated, fails: the player has no maxCombo. Sessions A and B end in the same
  state, every ref and the note list alike, but their ratings are GREAT, GREAT, MISS, MISS
  and GREAT, MISS, GREAT, MISS, for which the specification's maxCombo is 2 and 1. So no
  part of the state, and nothing computed from it, is the maxCombo of the claim.
\<close>

theorem max_combo_not_in_state_counterexample:
  "fst (run session_A (handleStart 1000 initial_game)) =
   fst (run session_B (handleStart 1000 initial_game)) \<and>
   map snd (snd (run session_A (handleStart 1000 initial_game))) = [GREAT, GREAT, MISS, MISS] \<and>
   map snd (snd (run session_B (handleStart 1000 initial_game))) = [GREAT, MISS, GREAT, MISS] \<and>
   snd (foldl spec_resolve (0, 0) [GREAT, GREAT, MISS, MISS]) = 2 \<and>
   snd (foldl spec_resolve (0, 0) [GREAT, MISS, GREAT, MISS]) = 1"
  by (simp add: session_A_def session_B_def eval_defs)

text \<open>
  C3, amended. Only combo is kept. From a state with a combo that is not negative, and
  for frames with the estimator's shape, the combo after a session, and after the loop
  body for one note, is the specification's combo over the ratings shown: one more after
  every Hit, 0 after every Miss, never negative. A maxCombo computed by the
  specification's rule from those ratings, started at any value that is at least the
  combo, is at least the combo after every such update.
\<close>

theorem combo_follows_ratings:
  assumes "0 \<le> comboRef g" "comboRef g \<le> m" "list_all wf_frame fs"
  shows "comboRef (fst (run fs g)) =
           fst (foldl spec_resolve (comboRef g, m) (map snd (snd (run fs g)))) \<and>
         comboRef (fst (run fs g)) \<le>
           snd (foldl spec_resolve (comboRef g, m) (map snd (snd (run fs g)))) \<and>
         0 \<le> comboRef (fst (run fs g)) \<and>
         comboRef (fst (snd (judge_note d HZX n g))) =
           fst (foldl spec_resolve (comboRef g, m) (snd (snd (judge_note d HZX n g)))) \<and>
         comboRef (fst (snd (judge_note d HZX n g))) \<le>
           snd (foldl spec_resolve (comboRef g, m) (snd (snd (judge_note d HZX n g))))"
proof -
  have m: "0 \<le> m" using assms by simp
  have r: "comboRef (fst (run fs g)) =
           fst (foldl spec_resolve (comboRef g, m) (map snd (snd (run fs g))))"
    using run_refs [of fs g m] by simp
  have j: "comboRef (fst (snd (judge_note d HZX n g))) =
           fst (foldl spec_resolve (comboRef g, m) (snd (snd (judge_note d HZX n g))))"
    using judge_note_refs [of d HZX n g m] by simp
  show ?thesis
    using r j spec_resolve_max [OF m assms(2)] spec_resolve_nonneg [OF assms(1), of m]
    by simp
qed

theorem combo_follows_ratings_witness:
  "0 \<le> comboRef (handleStart 1000 initial_game) \<and>
   comboRef (handleStart 1000 initial_game) \<le> 0 \<and> list_all wf_frame session_A \<and>
   comboRef (fst (run session_A (handleStart 1000 initial_game))) = 0 \<and>
   comboRef (fst (run session_A (handleStart 1000 initial_game))) \<le>
     snd (foldl spec_resolve (comboRef (handleStart 1000 initial_game), 0)
            (map snd (snd (run session_A (handleStart 1000 initial_game))))) \<and>
   snd (foldl spec_resolve (comboRef (handleStart 1000 initial_game), 0)
          (map snd (snd (run session_A (handleStart 1000 initial_game))))) = 2"
proof -
  have c: "comboRef (handleStart 1000 initial_game) = 0"
    by (simp add: handleStart_def initial_game_def)
  have h1: "0 \<le> comboRef (handleStart 1000 initial_game)"
    and h2: "comboRef (handleStart 1000 initial_game) \<le> 0"
    using c by simp_all
  have w: "list_all wf_frame session_A"
    by (simp add: session_A_def wf_frame_def wf_prediction_def frame_at_def hand_at_def list_all_iff)
  have l: "run session_A (handleStart 1000 initial_game) =
           (fst (run session_A (handleStart 1000 initial_game)),
            [(0, GREAT), (2, GREAT), (1, MISS), (3, MISS)])"
    by (simp add: session_A_def eval_defs)
  have e: "comboRef (fst (run session_A (handleStart 1000 initial_game))) = 0"
    by (simp add: session_A_def eval_defs)
  from combo_follows_ratings [OF h1 h2 w]
  have "comboRef (fst (run session_A (handleStart 1000 initial_game))) \<le>
     snd (foldl spec_resolve (comboRef (handleStart 1000 initial_game), 0)
            (map snd (snd (run session_A (handleStart 1000 initial_game)))))"
    by blast
  moreover have "snd (foldl spec_resolve (comboRef (handleStart 1000 initial_game), 0)
          (map snd (snd (run session_A (handleStart 1000 initial_game))))) = 2"
    unfolding c by (subst l) simp
  ultimately show ?thesis using h1 h2 w e by blast
qed

end
